theory Spec2Isabelle
  imports Complex_Main "HOL-Library.Multiset"
begin

section \<open>The round session engine of App.tsx\<close>

text \<open>
  The component \<^verbatim>\<open>App\<close> keeps its whole state in \<^verbatim>\<open>useState\<close> cells and changes it in
  event handlers. The cells become the fields of one record and every handler becomes a
  function from the state before the event to the state after it.

  Conventions of the embedding:
  \<^item> a JavaScript number that holds an integer (an array index, a counter) is an \<open>int\<close>;
    all of them stay far below \<open>2^53\<close>, where the arithmetic of doubles on integers is exact;
  \<^item> a call of \<^verbatim>\<open>Math.random()\<close> is one read of a random source \<open>rnd :: nat \<Rightarrow> real\<close>,
    \<open>rnd k\<close> being the result of the \<open>k\<close>-th call made by the handler; the contract of
    \<^verbatim>\<open>Math.random\<close>, a double with \<open>0 \<le> rnd k < 1\<close>, is a hypothesis of the theorems that
    need it;
  \<^item> the product of a draw and an array length is the product of two doubles: the exact
    product rounded to the nearest double, ties to even (\<open>js_times\<close>);
  \<^item> \<^verbatim>\<open>undefined\<close>, which an out-of-range array read yields, is \<open>None\<close>;
  \<^item> the fire-and-forget calls (\<^verbatim>\<open>confetti\<close>, \<^verbatim>\<open>navigator.vibrate\<close>) are appended to a log
    kept in the state; whether the browser has \<^verbatim>\<open>navigator.vibrate\<close> is the field
    \<open>canVibrate\<close>, which no handler changes;
  \<^item> the cells \<^verbatim>\<open>newPlayerName\<close>, \<^verbatim>\<open>editingPlayerId\<close> and \<^verbatim>\<open>showRules\<close> belong to the
    setup form and the rules dialog only and are left out, with the handlers that use
    nothing else (\<^verbatim>\<open>addPlayer\<close>, \<^verbatim>\<open>updatePlayerName\<close>).
\<close>

subsection \<open>State\<close>

datatype GameState = Setup | Playing | Reveal | Finished

datatype GameMode = Classic | Uncertainty

record Player =
  pid :: string
  name :: string

datatype effect = Confetti | Vibrate nat

record App =
  gameState :: GameState
  gameMode :: GameMode
  players :: "Player list"
  impostorIndices :: "int option list"
  currentWord :: "string option"
  currentPlayerIndex :: int
  isRevealed :: bool
  roundNo :: int
  isPressed :: bool
  canVibrate :: bool
  effects :: "effect list"

text \<open>The three players every \<^verbatim>\<open>useState\<close> initialiser and \<^verbatim>\<open>resetGame\<close> write.\<close>

definition defaultPlayers :: "Player list" where
  "defaultPlayers =
     [\<lparr>pid = ''1'', name = ''Jugador 1''\<rparr>,
      \<lparr>pid = ''2'', name = ''Jugador 2''\<rparr>,
      \<lparr>pid = ''3'', name = ''Jugador 3''\<rparr>]"

text \<open>The state after the first render (lines 21 to 36); the argument is the browser's
  support for vibration.\<close>

definition initialApp :: "bool \<Rightarrow> App" where
  "initialApp v =
     \<lparr>gameState = Setup, gameMode = Classic, players = defaultPlayers,
      impostorIndices = [], currentWord = Some [], currentPlayerIndex = 0,
      isRevealed = False, roundNo = 1, isPressed = False,
      canVibrate = v, effects = []\<rparr>"

text \<open>\<^verbatim>\<open>if (navigator.vibrate) navigator.vibrate(ms)\<close>\<close>

definition vibrate :: "nat \<Rightarrow> App \<Rightarrow> App" where
  "vibrate ms s = (if canVibrate s then s\<lparr>effects := effects s @ [Vibrate ms]\<rparr> else s)"

subsection \<open>Double arithmetic\<close>

text \<open>
  The binary64 format, as far as the program uses it: rounding of a real to the nearest
  double, ties to even, below the overflow threshold (the products here are below \<open>2^32\<close>).
  \<open>binade x\<close> is the exponent \<open>e\<close> with \<open>2^e \<le> x < 2^(e+1)\<close> of a positive \<open>x\<close>; a double
  has 53 significant bits, so the doubles around \<open>x\<close> are the multiples of
  \<open>2^(e - 52)\<close>, and of \<open>2^(-1074)\<close> in the subnormal range \<open>e < -1022\<close>.
\<close>

function binade :: "real \<Rightarrow> int" where
  "binade x =
     (if 2 \<le> x then binade (x / 2) + 1
      else if 0 < x \<and> x < 1 then binade (x * 2) - 1
      else 0)"
  by pat_completeness auto
termination
proof (relation "measure (\<lambda>x. if 2 \<le> x then nat \<lfloor>x\<rfloor> else nat \<lfloor>1 / x\<rfloor>)")
  show "wf (measure (\<lambda>x::real. if 2 \<le> x then nat \<lfloor>x\<rfloor> else nat \<lfloor>1 / x\<rfloor>))" by simp
next
  have halve: "\<lfloor>y / 2\<rfloor> < \<lfloor>y\<rfloor>" if "1 \<le> y" for y :: real
  proof -
    from that have "1 \<le> \<lfloor>y\<rfloor>" by simp
    then have "real_of_int \<lfloor>y\<rfloor> + 1 \<le> 2 * real_of_int \<lfloor>y\<rfloor>" by simp
    moreover have "y < real_of_int \<lfloor>y\<rfloor> + 1" by linarith
    ultimately have "y / 2 < real_of_int \<lfloor>y\<rfloor>" by linarith
    then show ?thesis by (simp only: floor_less_iff)
  qed
  {
    fix x :: real assume x: "2 \<le> x"
    then have fl: "\<lfloor>x / 2\<rfloor> < \<lfloor>x\<rfloor>" by (intro halve) simp
    from x have pos: "0 < \<lfloor>x\<rfloor>" by simp
    show "(x / 2, x) \<in> measure (\<lambda>x. if 2 \<le> x then nat \<lfloor>x\<rfloor> else nat \<lfloor>1 / x\<rfloor>)"
    proof (cases "2 \<le> x / 2")
      case True
      with x fl pos show ?thesis by simp
    next
      case False
      from x have "1 / (x / 2) \<le> 1" by simp
      then have "1 / (x / 2) < real_of_int 2" by simp
      then have "\<lfloor>1 / (x / 2)\<rfloor> < 2" by (simp only: floor_less_iff)
      moreover from x have "2 \<le> \<lfloor>x\<rfloor>" by simp
      ultimately have "nat \<lfloor>1 / (x / 2)\<rfloor> < nat \<lfloor>x\<rfloor>" by linarith
      with False x show ?thesis by (simp only: in_measure if_False if_True)
    qed
  }
  {
    fix x :: real assume a: "\<not> 2 \<le> x" and b: "0 < x \<and> x < 1"
    from b have y: "1 \<le> 1 / x" by simp
    have "1 / (x * 2) = (1 / x) / 2" by simp
    with halve [OF y] have lt: "\<lfloor>1 / (x * 2)\<rfloor> < \<lfloor>1 / x\<rfloor>" by (simp only:)
    from y have "1 \<le> \<lfloor>1 / x\<rfloor>" by (simp only: le_floor_iff of_int_1)
    with lt have "nat \<lfloor>1 / (x * 2)\<rfloor> < nat \<lfloor>1 / x\<rfloor>" by linarith
    moreover from b have "\<not> 2 \<le> x * 2" by simp
    ultimately show "(x * 2, x) \<in> measure (\<lambda>x. if 2 \<le> x then nat \<lfloor>x\<rfloor> else nat \<lfloor>1 / x\<rfloor>)"
      using a by (simp only: in_measure if_False)
  }
qed

declare binade.simps [simp del]

text \<open>The nearest integer, the even one of two that are equally near.\<close>

definition round_half_even :: "real \<Rightarrow> int" where
  "round_half_even q =
     (let f = \<lfloor>q\<rfloor>; d = q - of_int f
      in if d < 1 / 2 then f
         else if 1 / 2 < d then f + 1
         else if even f then f else f + 1)"

text \<open>The distance between the doubles around a positive \<open>x\<close>.\<close>

definition ulp :: "real \<Rightarrow> real" where
  "ulp x = 2 powi (max (binade x) (- 1022) - 52)"

definition round_double :: "real \<Rightarrow> real" where
  "round_double x =
     (if x = 0 then 0
      else sgn x * (of_int (round_half_even (\<bar>x\<bar> / ulp \<bar>x\<bar>)) * ulp \<bar>x\<bar>))"

text \<open>A real is a double when rounding leaves it as it is.\<close>

definition is_double :: "real \<Rightarrow> bool" where
  "is_double x \<longleftrightarrow> round_double x = x"

text \<open>\<^verbatim>\<open>x * y\<close> on doubles.\<close>

definition js_times :: "real \<Rightarrow> real \<Rightarrow> real" where
  "js_times x y = round_double (x * y)"

subsection \<open>Roster\<close>

definition removePlayer :: "string \<Rightarrow> App \<Rightarrow> App" where
  "removePlayer i s =
     (if length (players s) > 3
      then s\<lparr>players := filter (\<lambda>p. pid p \<noteq> i) (players s)\<rparr>
      else s)"

text \<open>A sequence of \<^verbatim>\<open>removePlayer\<close> calls, one per identifier, in order.\<close>

fun removeAll_players :: "string list \<Rightarrow> App \<Rightarrow> App" where
  "removeAll_players [] s = s"
| "removeAll_players (i # is) s = removeAll_players is (removePlayer i s)"

subsection \<open>Assignment\<close>

text \<open>\<^verbatim>\<open>xs[i]\<close> for an integer \<open>i\<close>: \<^verbatim>\<open>undefined\<close> out of range.\<close>

definition js_index :: "'a list \<Rightarrow> int \<Rightarrow> 'a option" where
  "js_index xs i = (if 0 \<le> i \<and> i < int (length xs) then Some (xs ! nat i) else None)"

text \<open>\<^verbatim>\<open>xs.splice(start, 1)[0]\<close> together with the array it leaves: a negative start counts
  from the end, a start beyond the end removes nothing and the read yields \<^verbatim>\<open>undefined\<close>.\<close>

definition splice1 :: "int \<Rightarrow> 'a list \<Rightarrow> 'a option \<times> 'a list" where
  "splice1 start xs =
     (let len = int (length xs);
          k = nat (if start < 0 then max (len + start) 0 else min start len)
      in if k < length xs then (Some (xs ! k), take k xs @ drop (Suc k) xs)
         else (None, xs))"

text \<open>The loop of lines 63 to 66. The first call of \<^verbatim>\<open>Math.random\<close> has drawn the count, so
  iteration \<open>i\<close> reads draw \<open>i + 1\<close>.\<close>

function impostorLoop ::
  "(nat \<Rightarrow> real) \<Rightarrow> int \<Rightarrow> int \<Rightarrow> int list \<Rightarrow> int option list \<Rightarrow> int option list" where
  "impostorLoop rnd i numImpostors allIndices indices =
     (if i < numImpostors then
        (let randomIndex = \<lfloor>js_times (rnd (nat i + 1)) (real (length allIndices))\<rfloor>;
             (removed, rest) = splice1 randomIndex allIndices
         in impostorLoop rnd (i + 1) numImpostors rest (indices @ [removed]))
      else indices)"
  by pat_completeness auto
termination
  by (relation "measure (\<lambda>(rnd, i, numImpostors, allIndices, indices). nat (numImpostors - i))")
     auto

declare impostorLoop.simps [simp del]

text \<open>The count of line 61.\<close>

definition numImpostors_of :: "real \<Rightarrow> nat \<Rightarrow> int" where
  "numImpostors_of r n = \<lfloor>js_times r (real n - 1)\<rfloor> + 1"

text \<open>Lines 56 to 67: the impostor positions and the number of draws they took.\<close>

definition drawIndices :: "(nat \<Rightarrow> real) \<Rightarrow> GameMode \<Rightarrow> nat \<Rightarrow> int option list \<times> nat" where
  "drawIndices rnd m n =
     (if m = Classic then ([Some \<lfloor>js_times (rnd 0) (real n)\<rfloor>], 1)
      else
        (let numImpostors = numImpostors_of (rnd 0) n;
             allIndices = map int [0..<n]
         in (impostorLoop rnd 0 numImpostors allIndices [], 1 + nat numImpostors)))"

text \<open>\<^verbatim>\<open>startGame\<close>; the word list \<^verbatim>\<open>WORDS\<close> is imported from a module that is not part of
  the sources and is a parameter.\<close>

definition startGame :: "string list \<Rightarrow> (nat \<Rightarrow> real) \<Rightarrow> App \<Rightarrow> App" where
  "startGame WORDS rnd s =
     (let (indices, used) = drawIndices rnd (gameMode s) (length (players s));
          randomWord = js_index WORDS \<lfloor>js_times (rnd used) (real (length WORDS))\<rfloor>;
          s1 = s\<lparr>impostorIndices := indices, currentWord := randomWord,
                 currentPlayerIndex := 0, gameState := Playing,
                 isRevealed := False, isPressed := False\<rparr>;
          s2 = (if gameState s = Finished then s1\<lparr>roundNo := roundNo s1 + 1\<rparr> else s1)
      in vibrate 50 s2)"

subsection \<open>Turns\<close>

definition nextPlayer :: "App \<Rightarrow> App" where
  "nextPlayer s =
     (if currentPlayerIndex s < int (length (players s)) - 1
      then s\<lparr>currentPlayerIndex := currentPlayerIndex s + 1,
             isRevealed := False, isPressed := False\<rparr>
      else s\<lparr>gameState := Finished, effects := effects s @ [Confetti]\<rparr>)"

definition resetGame :: "App \<Rightarrow> App" where
  "resetGame s = s\<lparr>gameState := Setup, players := defaultPlayers\<rparr>"

subsection \<open>Shuffle\<close>

text \<open>
  \<^verbatim>\<open>[...players].sort(() => Math.random() - 0.5)\<close>. \<^verbatim>\<open>Array.prototype.sort\<close> is the
  engine's. ECMAScript fixes that it calls the comparator on pairs of elements, uses the
  sign of each result only, and returns the elements it was given; the order is the
  engine's own choice when the comparator is not consistent, as here. The comparator
  ignores its arguments, so what an engine does with an array of a given length is a
  finite decision tree on the signs of the successive results. The tree is a parameter:
  \<open>Compare i j l e g\<close> calls the comparator on the elements at \<open>i\<close> and \<open>j\<close> and goes on with
  \<open>l\<close>, \<open>e\<close> or \<open>g\<close> as the result is negative, zero or positive; \<open>Done p\<close> returns the array
  that has at each position \<open>k\<close> the element that was at \<open>p ! k\<close>.
\<close>

datatype sorter = Done "nat list" | Compare nat nat sorter sorter sorter

text \<open>The sort under the comparator of \<^verbatim>\<open>shufflePlayers\<close>: call \<open>k\<close> of the comparator returns
  \<open>rnd k - 0.5\<close>. The sort reads its sign only, and the sign of the double difference is
  that of the exact one: rounding keeps the order and \<open>0\<close> is a double.\<close>

fun sortRun :: "sorter \<Rightarrow> (nat \<Rightarrow> real) \<Rightarrow> nat \<Rightarrow> nat list" where
  "sortRun (Done p) rnd k = p"
| "sortRun (Compare i j l e g) rnd k =
     (let v = rnd k - 0.5
      in if v < 0 then sortRun l rnd (k + 1)
         else if v = 0 then sortRun e rnd (k + 1)
         else sortRun g rnd (k + 1))"

text \<open>\<^verbatim>\<open>shufflePlayers\<close>, on an engine whose sort of an array of the roster's length is the
  tree \<open>t\<close>.\<close>

definition shufflePlayers :: "sorter \<Rightarrow> (nat \<Rightarrow> real) \<Rightarrow> App \<Rightarrow> App" where
  "shufflePlayers t rnd s =
     (let order = sortRun t rnd 0;
          shuffled = map (\<lambda>i. players s ! i) order
      in vibrate 20 (s\<lparr>players := shuffled\<rparr>))"

subsection \<open>Gestures\<close>

text \<open>\<^verbatim>\<open>handleDragEnd\<close> reads \<^verbatim>\<open>info.offset.y\<close> and \<^verbatim>\<open>info.velocity.y\<close>. Both are finite
  doubles, every finite double is a real and the comparisons with the literals are exact,
  so they are reals here.\<close>

definition handleDragEnd :: "real \<Rightarrow> real \<Rightarrow> App \<Rightarrow> App" where
  "handleDragEnd offset_y velocity_y s =
     (if offset_y < - 50 \<or> velocity_y < - 500
      then vibrate 10 (s\<lparr>isRevealed := True\<rparr>)
      else if offset_y > 30 \<or> velocity_y > 500
      then vibrate 5 (s\<lparr>isRevealed := False\<rparr>)
      else s)"

text \<open>The handlers of the hold button (lines 343 to 348).\<close>

definition pointerDown :: "App \<Rightarrow> App" where
  "pointerDown s = vibrate 10 (s\<lparr>isPressed := True\<rparr>)"



subsection \<open>The assignment in the words of the specification\<close>

text \<open>Drawing without replacement as the specification describes it: keep a pool, and for
  each draw \<open>u\<close> take out the element at position \<open>\<lfloor>u * size of the pool\<rfloor>\<close>, the product being
  the program's. The loop of \<^verbatim>\<open>startGame\<close> is compared with this function.\<close>

fun drawWithoutReplacement :: "real list \<Rightarrow> 'a list \<Rightarrow> 'a list" where
  "drawWithoutReplacement [] pool = []"
| "drawWithoutReplacement (u # us) pool =
     (let j = nat \<lfloor>js_times u (real (length pool))\<rfloor>
      in pool ! j # drawWithoutReplacement us (take j pool @ drop (Suc j) pool))"

text \<open>What "drawn uniformly" says of a function \<open>f\<close> of one draw \<open>r\<close>, a double in \<open>[0, 1)\<close>,
  whose values are the \<open>m\<close> integers from \<open>lo\<close> on: the value \<open>v\<close> is drawn on the interval
  \<open>[(v - lo) / m, (v - lo + 1) / m)\<close> of draws, of width \<open>1 / m\<close> whatever \<open>v\<close> is. The product
  \<open>r * m\<close> is rounded before it is floored, which can move either end of the interval
  down by the factor \<open>1 - 2^(-53)\<close> and no further: \<open>v\<close> is drawn wherever
  \<open>v - lo \<le> r * m \<le> (v - lo + 1) * (1 - 2^(-53))\<close> and only where
  \<open>(v - lo) * (1 - 2^(-53)) \<le> r * m < v - lo + 1\<close>.\<close>

definition draws_uniformly :: "(real \<Rightarrow> int) \<Rightarrow> int \<Rightarrow> nat \<Rightarrow> bool" where
  "draws_uniformly f lo m \<longleftrightarrow>
     (\<forall>r. is_double r \<and> 0 \<le> r \<and> r < 1 \<longrightarrow>
        lo \<le> f r \<and> f r < lo + int m
      \<and> real_of_int (f r - lo) * (1 - 1 / 2 ^ 53) \<le> r * real m
      \<and> r * real m < real_of_int (f r - lo) + 1
      \<and> (\<forall>v. lo \<le> v \<and> v < lo + int m
             \<and> real_of_int (v - lo) \<le> r * real m
             \<and> r * real m \<le> (real_of_int (v - lo) + 1) * (1 - 1 / 2 ^ 53)
             \<longrightarrow> f r = v))"

text \<open>The likelihood that the sort ends with the rearrangement \<open>p\<close>, when the draws are
  independent and uniform. A result \<open>rnd k - 0.5\<close> is negative for the draws below \<open>1/2\<close>, which
  is half of them, and zero for the draw \<open>1/2\<close> alone; \<open>z\<close> is the likelihood of that draw:
  \<open>0\<close> for a uniform real in \<open>[0, 1)\<close>, \<open>1 / 2 ^ b\<close> for a source of \<open>b\<close> random bits.\<close>

fun likelihood :: "real \<Rightarrow> sorter \<Rightarrow> nat list \<Rightarrow> real" where
  "likelihood z (Done q) p = (if q = p then 1 else 0)"
| "likelihood z (Compare i j l e g) p =
     (1 / 2) * likelihood z l p + z * likelihood z e p + (1 / 2 - z) * likelihood z g p"

text \<open>The same likelihood by counting, for a source without the draw \<open>1/2\<close>: \<open>signSource bs\<close>
  makes the \<open>k\<close>-th result of the comparator negative when \<open>bs ! k\<close> holds and positive
  otherwise; a sort of height at most \<open>d\<close> reads at most the first \<open>d\<close> of them, and the
  \<open>2 ^ d\<close> lists of length \<open>d\<close> are equally likely.\<close>

fun height_s :: "sorter \<Rightarrow> nat" where
  "height_s (Done p) = 0"
| "height_s (Compare i j l e g) = Suc (max (height_s l) (max (height_s e) (height_s g)))"

definition signSource :: "bool list \<Rightarrow> nat \<Rightarrow> real" where
  "signSource bs k = (if bs ! k then 1 / 4 else 3 / 4)"

text \<open>The numbers \<open>k / 2 ^ d\<close>.\<close>

definition dyadic :: "real \<Rightarrow> bool" where
  "dyadic x \<longleftrightarrow> (\<exists>(k::int) (d::nat). x = real_of_int k / 2 ^ d)"

subsection \<open>Example states\<close>

text \<open>The seed roster with a fourth player added.\<close>

definition fourPlayers :: App where
  "fourPlayers = (initialApp True)\<lparr>players := defaultPlayers @ [\<lparr>pid = ''k3x'', name = ''Ana''\<rparr>]\<rparr>"

text \<open>The seed roster with a fourth player that has the identifier of the first, and with
  two added players of one identifier. The identifier of an added player is nine digits
  of a draw written in base 36, and the code does not compare it with those in the
  roster.\<close>

definition repeatedId :: App where
  "repeatedId = (initialApp True)\<lparr>players := defaultPlayers @ [\<lparr>pid = ''1'', name = ''Eva''\<rparr>]\<rparr>"

definition twoAlike :: App where
  "twoAlike = (initialApp True)\<lparr>players := defaultPlayers @
     [\<lparr>pid = ''k3x'', name = ''Eva''\<rparr>, \<lparr>pid = ''k3x'', name = ''Leo''\<rparr>]\<rparr>"

text \<open>Two doubles for the examples: the ones nearest below \<open>2/3\<close> and \<open>5/6\<close>, which
  JavaScript prints as \<^verbatim>\<open>0.6666666666666666\<close> and \<^verbatim>\<open>0.8333333333333333\<close>.\<close>

definition twoThirds :: real where
  "twoThirds = 6004799503160661 / 2 ^ 53"

definition fiveSixths :: real where
  "fiveSixths = 3752999689475413 / 2 ^ 52"

text \<open>
  The sort of V8 (Chrome, Node) on an array of three elements \<open>a0, a1, a2\<close>. It compares
  \<open>a1\<close> with \<open>a0\<close> and then \<open>a2\<close> with \<open>a1\<close> to find the run at the front: descending while
  the results are negative, ascending while they are not. A descending run is reversed.
  If the run is the whole array the sort is done; otherwise \<open>a2\<close> is inserted into the
  run of two by binary search, which compares it with the second element of the run and,
  if that result is negative, with the first. A result that is zero counts as positive
  throughout.
\<close>

definition v8_sort3 :: sorter where
  "v8_sort3 =
     (let afterDescending =
            Compare 2 0
              (Compare 2 1 (Done [2, 1, 0]) (Done [1, 2, 0]) (Done [1, 2, 0]))
              (Done [1, 0, 2]) (Done [1, 0, 2]);
          afterAscending =
            Compare 2 1
              (Compare 2 0 (Done [2, 0, 1]) (Done [0, 2, 1]) (Done [0, 2, 1]))
              (Done [0, 1, 2]) (Done [0, 1, 2])
      in Compare 1 0
           (Compare 2 1 (Done [2, 1, 0]) afterDescending afterDescending)
           (Compare 2 1 afterAscending (Done [0, 1, 2]) (Done [0, 1, 2]))
           (Compare 2 1 afterAscending (Done [0, 1, 2]) (Done [0, 1, 2])))"

section \<open>Properties\<close>

lemma vibrate_fields [simp]:
  "gameState (vibrate ms s) = gameState s"
  "gameMode (vibrate ms s) = gameMode s"
  "players (vibrate ms s) = players s"
  "impostorIndices (vibrate ms s) = impostorIndices s"
  "currentWord (vibrate ms s) = currentWord s"
  "currentPlayerIndex (vibrate ms s) = currentPlayerIndex s"
  "isRevealed (vibrate ms s) = isRevealed s"
  "roundNo (vibrate ms s) = roundNo s"
  "isPressed (vibrate ms s) = isPressed s"
  "canVibrate (vibrate ms s) = canVibrate s"
  by (simp_all add: vibrate_def)

subsection \<open>Rounding\<close>

text \<open>The exponent found by \<open>binade\<close> is not above the number.\<close>

lemma binade_lower: "0 < x \<Longrightarrow> 2 powi (binade x) \<le> x"
proof (induction x rule: binade.induct)
  case (1 x)
  show ?case
  proof (cases "2 \<le> x")
    case True
    then have b: "binade x = binade (x / 2) + 1" by (subst binade.simps) simp
    from True have "0 < x / 2" by simp
    from "1.IH"(1) [OF True this] have "2 powi (binade (x / 2)) \<le> x / 2" .
    then have "2 powi (binade (x / 2)) * 2 \<le> x" by simp
    then show ?thesis unfolding b by (simp add: power_int_add)
  next
    case False
    show ?thesis
    proof (cases "x < 1")
      case True
      with "1.prems" have c: "0 < x \<and> x < 1" by simp
      with False have b: "binade x = binade (x * 2) - 1" by (subst binade.simps) simp
      from "1.prems" have "0 < x * 2" by simp
      from "1.IH"(2) [OF False c this] have "2 powi (binade (x * 2)) \<le> x * 2" .
      then have "2 powi (binade (x * 2)) / 2 \<le> x" by simp
      then show ?thesis unfolding b by (simp add: power_int_diff)
    next
      case ge: False
      with False have "binade x = 0" by (subst binade.simps) simp
      with ge show ?thesis by simp
    qed
  qed
qed

lemma binade_nonneg: "1 \<le> x \<Longrightarrow> 0 \<le> binade x"
proof (induction x rule: binade.induct)
  case (1 x)
  show ?case
  proof (cases "2 \<le> x")
    case True
    then have b: "binade x = binade (x / 2) + 1" by (subst binade.simps) simp
    from True have "1 \<le> x / 2" by simp
    from "1.IH"(1) [OF True this] show ?thesis unfolding b by simp
  next
    case False
    with "1.prems" have "binade x = 0" by (subst binade.simps) simp
    then show ?thesis by simp
  qed
qed

lemma ulp_pos: "0 < ulp x"
  by (simp add: ulp_def)

lemma round_half_even_upper: "real_of_int (round_half_even q) \<le> q + 1 / 2"
  unfolding round_half_even_def Let_def by (auto simp: not_less) linarith+

lemma round_half_even_ge: "real_of_int M \<le> q \<Longrightarrow> M \<le> round_half_even q"
proof -
  assume "real_of_int M \<le> q"
  then have "M \<le> \<lfloor>q\<rfloor>" by (simp add: le_floor_iff)
  then show ?thesis unfolding round_half_even_def Let_def by auto
qed

lemma round_double_nonneg:
  assumes "0 \<le> x" shows "0 \<le> round_double x"
proof (cases "x = 0")
  case True
  then show ?thesis by (simp add: round_double_def)
next
  case False
  with assms have x: "0 < x" by simp
  with ulp_pos [of x] have "real_of_int 0 \<le> x / ulp x" by simp
  then have "0 \<le> round_half_even (x / ulp x)" by (rule round_half_even_ge)
  with x ulp_pos [of x] show ?thesis by (simp add: round_double_def)
qed

lemma ulp_half_bound:
  assumes "0 < x"
  shows "ulp x / 2 \<le> x / 2 ^ 53 \<or> ulp x / 2 = 2 powi (- 1075)"
proof (cases "- 1022 \<le> binade x")
  case True
  then have "ulp x = 2 powi (binade x - 52)" by (simp add: ulp_def max_def)
  also have "\<dots> = 2 powi (binade x) / 2 ^ 52" by (simp add: power_int_diff)
  finally have "ulp x / 2 = 2 powi (binade x) / 2 ^ 53" by simp
  with binade_lower [OF assms] show ?thesis by (simp add: divide_right_mono)
next
  case False
  then have "ulp x = 2 powi (- 1074)" by (simp add: ulp_def max_def)
  also have "\<dots> = 2 powi (- 1075) * 2" by (simp add: power_int_add [of 2 "- 1075" 1, simplified])
  finally show ?thesis by simp
qed

lemma round_double_upper:
  assumes "0 < x"
  shows "round_double x \<le> x + ulp x / 2"
proof -
  from round_half_even_upper [of "x / ulp x"] ulp_pos [of x]
  have "real_of_int (round_half_even (x / ulp x)) * ulp x \<le> (x / ulp x + 1 / 2) * ulp x"
    by (simp only: mult_le_cancel_right_pos)
  also have "\<dots> = x + ulp x / 2" using ulp_pos [of x] by (simp add: field_simps)
  finally show ?thesis using assms by (simp add: round_double_def)
qed

lemma tiny: "(2::real) powi (- 1075) < 1 / 2 ^ 53"
proof -
  have "(2::real) powi (- 1075) < 2 powi (- 53)" by (rule power_int_strict_increasing) simp_all
  also have "\<dots> = 1 / 2 ^ 53" by (simp add: power_int_minus_divide)
  finally show ?thesis .
qed

text \<open>Rounding does not reach a number \<open>c \<ge> 1\<close> from \<open>c * (1 - 2^(-53))\<close> or below: the
  rounding error is at most half the distance between doubles, which is at most
  \<open>x * 2^(-53)\<close>, or \<open>2^(-1075)\<close> in the subnormal range.\<close>

lemma round_double_below:
  assumes "0 \<le> x" and "1 \<le> c" and "x \<le> c * (1 - 1 / 2 ^ 53)"
  shows "round_double x < c"
proof (cases "x = 0")
  case True
  with assms(2) show ?thesis by (simp add: round_double_def)
next
  case False
  with assms(1) have x: "0 < x" by simp
  note up = round_double_upper [OF x]
  from ulp_half_bound [OF x] show ?thesis
  proof
    assume "ulp x / 2 \<le> x / 2 ^ 53"
    with up have "round_double x \<le> x * (1 + 1 / 2 ^ 53)" by (simp add: algebra_simps)
    also have "\<dots> \<le> (c * (1 - 1 / 2 ^ 53)) * (1 + 1 / 2 ^ 53)"
      using assms(3) by (intro mult_right_mono) simp_all
    also have "\<dots> = c * (1 - 1 / 2 ^ 106)" by (simp add: algebra_simps)
    also have "\<dots> < c" using assms(2) by simp
    finally show ?thesis .
  next
    assume "ulp x / 2 = 2 powi (- 1075)"
    with up tiny have "round_double x < x + 1 / 2 ^ 53" by linarith
    also have "\<dots> \<le> c * (1 - 1 / 2 ^ 53) + 1 / 2 ^ 53" using assms(3) by simp
    also have "\<dots> = c - (c - 1) / 2 ^ 53" by (simp add: algebra_simps diff_divide_distrib)
    also have "\<dots> \<le> c" using assms(2) by simp
    finally show ?thesis .
  qed
qed


lemma binade_half: assumes "1 / 2 \<le> x" "x < 1" shows "binade x = - 1"
proof -
  from assms have "binade x = binade (x * 2) - 1" by (subst binade.simps) simp
  moreover from assms have "binade (x * 2) = 0" by (subst binade.simps) simp
  ultimately show ?thesis by simp
qed

text \<open>The doubles below 1 end at \<open>1 - 2^(-53)\<close>.\<close>

lemma double_below_one:
  assumes "is_double r" and "0 \<le> r" and "r < 1"
  shows "r \<le> 1 - 1 / 2 ^ 53"
proof (cases "r < 1 / 2")
  case True
  then show ?thesis by simp
next
  case False
  then have h: "1 / 2 \<le> r" by simp
  then have r0: "r \<noteq> 0" "0 < r" by simp_all
  have u: "ulp r = 1 / 2 ^ 53"
    by (simp add: ulp_def binade_half [OF h assms(3)] power_int_minus_divide)
  define k where "k = round_half_even (r / ulp r)"
  from assms(1) r0 have "real_of_int k * ulp r = r"
    by (simp add: is_double_def round_double_def k_def)
  then have kr: "real_of_int k = r * 2 ^ 53" by (simp add: u field_simps)
  with assms(3) have "real_of_int k < real_of_int (2 ^ 53)" by simp
  then have "k < 2 ^ 53" by (simp only: of_int_less_iff)
  then have "k \<le> 2 ^ 53 - 1" by simp
  then have "real_of_int k \<le> real_of_int (2 ^ 53 - 1)" by (simp only: of_int_le_iff)
  with kr have "r * 2 ^ 53 \<le> 2 ^ 53 - 1" by simp
  then show ?thesis by (simp add: field_simps)
qed

text \<open>Rounding does not go below an integer up to \<open>2^53\<close> that the number has reached:
  such an integer is a double.\<close>

lemma round_double_above:
  assumes "1 \<le> N" and "N \<le> 2 ^ 53" and "real_of_int N \<le> x"
  shows "real_of_int N \<le> round_double x"
proof -
  from assms(1,3) have x1: "1 \<le> x" by linarith
  then have x: "0 < x" "x \<noteq> 0" by simp_all
  define b where "b = binade x"
  from binade_nonneg [OF x1] have b0: "0 \<le> b" by (simp add: b_def)
  then have u: "ulp x = 2 powi (b - 52)" by (simp add: ulp_def b_def max_def)
  have rd: "round_double x = real_of_int (round_half_even (x / ulp x)) * ulp x"
    using x by (simp add: round_double_def)
  show ?thesis
  proof (cases "b \<le> 52")
    case True
    define P :: int where "P = 2 ^ nat (52 - b)"
    have up: "ulp x = 1 / real_of_int P"
    proof -
      have "(2::real) powi (b - 52) = 2 powi (- (52 - b))" by simp
      also have "\<dots> = 1 / 2 powi (52 - b)" by (rule power_int_minus_divide)
      also have "(2::real) powi (52 - b) = 2 ^ nat (52 - b)" using True by (simp add: power_int_def)
      finally show ?thesis by (simp add: u P_def)
    qed
    have Ppos: "0 < real_of_int P" by (simp add: P_def)
    from assms(3) Ppos have "real_of_int N * real_of_int P \<le> x * real_of_int P"
      by (simp only: mult_le_cancel_right_pos)
    then have "real_of_int (N * P) \<le> x / ulp x" by (simp add: up)
    then have "N * P \<le> round_half_even (x / ulp x)" by (rule round_half_even_ge)
    then have "real_of_int (N * P) \<le> real_of_int (round_half_even (x / ulp x))"
      by (simp only: of_int_le_iff)
    then have "real_of_int N * real_of_int P \<le> real_of_int (round_half_even (x / ulp x))"
      by simp
    with Ppos have "real_of_int N \<le> real_of_int (round_half_even (x / ulp x)) / real_of_int P"
      by (simp only: pos_le_divide_eq)
    moreover have "real_of_int (round_half_even (x / ulp x)) / real_of_int P
        = real_of_int (round_half_even (x / ulp x)) * ulp x"
      by (subst (2) up) simp
    ultimately show ?thesis by (simp only: rd)
  next
    case False
    then have b53: "53 \<le> b" by simp
    have "x / ulp x \<ge> 2 powi b / 2 powi (b - 52)"
      using binade_lower [OF x(1)] by (simp add: u b_def divide_right_mono)
    also have "(2::real) powi b / 2 powi (b - 52) = 2 ^ 52" by (simp add: power_int_diff)
    finally have "real_of_int (2 ^ 52) \<le> x / ulp x" by simp
    then have "2 ^ 52 \<le> round_half_even (x / ulp x)" by (rule round_half_even_ge)
    then have "real_of_int (2 ^ 52) \<le> real_of_int (round_half_even (x / ulp x))"
      by (simp only: of_int_le_iff)
    then have "2 ^ 52 * 2 powi (b - 52) \<le> round_double x"
      by (simp add: rd u)
    moreover have "(2::real) ^ 52 * 2 powi (b - 52) = 2 powi b" by (simp add: power_int_diff)
    moreover have "(2::real) powi 53 \<le> 2 powi b" using b53 by (intro power_int_increasing) simp_all
    moreover have "real_of_int N \<le> 2 powi 53" using assms(2)
    proof -
      from assms(2) have "real_of_int N \<le> real_of_int (2 ^ 53)" by (simp only: of_int_le_iff)
      then show ?thesis by simp
    qed
    ultimately show ?thesis by linarith
  qed
qed

subsection \<open>Random indices\<close>

text \<open>\<^verbatim>\<open>Math.floor(Math.random() * n)\<close> is an index below \<open>n\<close>: the draw is at most
  \<open>1 - 2^(-53)\<close>, so the rounded product stays below \<open>n\<close>.\<close>

lemma random_index_range:
  assumes "is_double r" and "0 \<le> r" and "r < 1" and "0 < n"
  shows "0 \<le> \<lfloor>js_times r (real n)\<rfloor> \<and> \<lfloor>js_times r (real n)\<rfloor> < int n"
proof
  from assms(2) have x: "0 \<le> r * real n" by simp
  from round_double_nonneg [OF x] show "0 \<le> \<lfloor>js_times r (real n)\<rfloor>" by (simp add: js_times_def)
  from assms(4) have c: "1 \<le> real n" by simp
  from double_below_one [OF assms(1-3)] have "r * real n \<le> (1 - 1 / 2 ^ 53) * real n"
    by (intro mult_right_mono) simp_all
  then have "r * real n \<le> real n * (1 - 1 / 2 ^ 53)" by (simp only: mult.commute)
  from round_double_below [OF x c this] have "js_times r (real n) < real_of_int (int n)"
    by (simp add: js_times_def)
  then show "\<lfloor>js_times r (real n)\<rfloor> < int n" by (simp only: floor_less_iff)
qed


text \<open>The index is drawn uniformly, in the sense of \<open>draws_uniformly\<close>, and so is the count
  of the uncertainty mode.\<close>

lemma floor_draws_uniformly:
  assumes "0 < m" and "m \<le> 2 ^ 53"
  shows "draws_uniformly (\<lambda>u. \<lfloor>js_times u (real m)\<rfloor>) 0 m"
proof -
  define c :: real where "c = 1 - 1 / 2 ^ 53"
  note below = round_double_below [folded c_def]
  from assms(2) have "int m \<le> int (2 ^ 53)" by (simp only: of_nat_le_iff)
  then have m53: "int m \<le> 2 ^ 53" by simp
  show ?thesis
    unfolding draws_uniformly_def c_def [symmetric]
  proof (intro allI impI)
    fix r assume r: "is_double r \<and> 0 \<le> r \<and> r < 1"
    define x where "x = r * real m"
    define j where "j = \<lfloor>js_times r (real m)\<rfloor>"
    have fl: "js_times r (real m) = round_double x" by (simp add: js_times_def x_def)
    from r have x0: "0 \<le> x" by (simp add: x_def)
    from r random_index_range [OF _ _ _ assms(1), of r] have j: "0 \<le> j" "j < int m"
      by (simp_all add: j_def)
    have jle: "real_of_int j \<le> round_double x" and jlt: "round_double x < real_of_int j + 1"
      unfolding j_def fl by linarith+
    have lower: "real_of_int (j - 0) * c \<le> x"
    proof (cases "j = 0")
      case True
      with x0 show ?thesis by simp
    next
      case False
      with j have j1: "1 \<le> real_of_int j" by simp
      show ?thesis
      proof (rule ccontr)
        assume "\<not> real_of_int (j - 0) * c \<le> x"
        then have "x \<le> real_of_int j * c" by simp
        from below [OF x0 j1 this] jle show False by simp
      qed
    qed
    have upper: "x < real_of_int (j - 0) + 1"
    proof (rule ccontr)
      assume "\<not> x < real_of_int (j - 0) + 1"
      then have le: "real_of_int (j + 1) \<le> x" by simp
      from j have "1 \<le> j + 1" by simp
      moreover from j m53 have "j + 1 \<le> 2 ^ 53" by linarith
      ultimately have "real_of_int (j + 1) \<le> round_double x" using le by (rule round_double_above)
      with jlt show False by simp
    qed
    have conv: "j = v" if v: "0 \<le> v \<and> v < 0 + int m \<and> real_of_int (v - 0) \<le> x
      \<and> x \<le> (real_of_int (v - 0) + 1) * c" for v
    proof -
      from v have v1: "0 \<le> v" and v2: "v < int m" and v3: "real_of_int v \<le> x"
        and v4: "x \<le> (real_of_int v + 1) * c" by simp_all
      have a: "real_of_int v \<le> round_double x"
      proof (cases "v = 0")
        case True
        with round_double_nonneg [OF x0] show ?thesis by simp
      next
        case False
        with v1 have "1 \<le> v" by simp
        moreover from v2 m53 have "v \<le> 2 ^ 53" by linarith
        ultimately show ?thesis using v3 by (rule round_double_above)
      qed
      from v1 have "1 \<le> real_of_int v + 1" by simp
      from below [OF x0 this v4] have b: "round_double x < real_of_int v + 1" .
      from a b have "\<lfloor>round_double x\<rfloor> = v" by (simp only: floor_eq_iff)
      then show ?thesis by (simp only: j_def fl)
    qed
    have j': "0 \<le> j" "j < 0 + int m" using j by simp_all
    from j' lower upper conv
    show "0 \<le> \<lfloor>js_times r (real m)\<rfloor> \<and> \<lfloor>js_times r (real m)\<rfloor> < 0 + int m
      \<and> real_of_int (\<lfloor>js_times r (real m)\<rfloor> - 0) * c \<le> r * real m
      \<and> r * real m < real_of_int (\<lfloor>js_times r (real m)\<rfloor> - 0) + 1
      \<and> (\<forall>v. 0 \<le> v \<and> v < 0 + int m
             \<and> real_of_int (v - 0) \<le> r * real m
             \<and> r * real m \<le> (real_of_int (v - 0) + 1) * c
             \<longrightarrow> \<lfloor>js_times r (real m)\<rfloor> = v)"
      unfolding j_def [symmetric] x_def [symmetric] by blast
  qed
qed

lemma count_draws_uniformly:
  assumes "2 \<le> n" and "n - 1 \<le> 2 ^ 53"
  shows "draws_uniformly (\<lambda>u. numImpostors_of u n) 1 (n - 1)"
proof -
  from assms(1) have m: "0 < n - 1" by simp
  from assms(1) have eq: "real n - 1 = real (n - 1)" by (simp add: of_nat_diff)
  define c :: real where "c = 1 - 1 / 2 ^ 53"
  define M where "M = n - 1"
  have f: "numImpostors_of u n = \<lfloor>js_times u (real M)\<rfloor> + 1" for u
    unfolding numImpostors_of_def eq M_def ..
  note F = floor_draws_uniformly [OF m assms(2), unfolded draws_uniformly_def,
      folded c_def M_def, rule_format]
  show ?thesis
    unfolding draws_uniformly_def f c_def [symmetric] M_def [symmetric]
  proof (intro allI impI)
    fix r assume r: "is_double r \<and> 0 \<le> r \<and> r < 1"
    define g where "g = \<lfloor>js_times r (real M)\<rfloor>"
    from F [OF r] have a: "0 \<le> g" "g < 0 + int M" "real_of_int (g - 0) * c \<le> r * real M"
      "r * real M < real_of_int (g - 0) + 1"
      unfolding g_def by blast+
    have conv: "g = v" if "0 \<le> v \<and> v < 0 + int M \<and> real_of_int (v - 0) \<le> r * real M
        \<and> r * real M \<le> (real_of_int (v - 0) + 1) * c" for v
      using F [OF r] that unfolding g_def by blast
    have "g + 1 = v" if v: "1 \<le> v \<and> v < 1 + int M \<and> real_of_int (v - 1) \<le> r * real M
        \<and> r * real M \<le> (real_of_int (v - 1) + 1) * c" for v
    proof -
      from v have "0 \<le> v - 1 \<and> v - 1 < 0 + int M \<and> real_of_int (v - 1 - 0) \<le> r * real M
        \<and> r * real M \<le> (real_of_int (v - 1 - 0) + 1) * c" by simp
      from conv [OF this] show ?thesis by simp
    qed
    moreover have "1 \<le> g + 1" "g + 1 < 1 + int M" using a(1,2) by simp_all
    moreover have "real_of_int (g + 1 - 1) * c \<le> r * real M" using a(3) by simp
    moreover have "r * real M < real_of_int (g + 1 - 1) + 1" using a(4) by simp
    ultimately show "1 \<le> \<lfloor>js_times r (real M)\<rfloor> + 1
       \<and> \<lfloor>js_times r (real M)\<rfloor> + 1 < 1 + int M
       \<and> real_of_int (\<lfloor>js_times r (real M)\<rfloor> + 1 - 1) * c \<le> r * real M
       \<and> r * real M < real_of_int (\<lfloor>js_times r (real M)\<rfloor> + 1 - 1) + 1
       \<and> (\<forall>v. 1 \<le> v \<and> v < 1 + int M \<and> real_of_int (v - 1) \<le> r * real M
              \<and> r * real M \<le> (real_of_int (v - 1) + 1) * c
              \<longrightarrow> \<lfloor>js_times r (real M)\<rfloor> + 1 = v)"
      unfolding g_def [symmetric] by blast
  qed
qed


text \<open>The examples: \<^verbatim>\<open>0.6666666666666666 * 3\<close> is \<open>2\<close> and \<^verbatim>\<open>0.8333333333333333 * 6\<close> is
  \<open>5\<close> in doubles, where the exact products are below.\<close>

lemma example_doubles:
  "is_double (1 / 2)" "is_double (1 / 4)" "is_double (3 / 4)"
  "is_double twoThirds" "0 \<le> twoThirds" "twoThirds < 1"
  "is_double fiveSixths" "0 \<le> fiveSixths" "fiveSixths < 1"
  by code_simp+

lemma example_products:
  "js_times twoThirds 3 = 2" "twoThirds * 3 < 2"
  "js_times fiveSixths 6 = 5" "fiveSixths * 6 < 5"
  "js_times (1 / 4) 2 = 1 / 2"
  by code_simp+


lemma startGame_fields:
  "impostorIndices (startGame WORDS rnd s) = fst (drawIndices rnd (gameMode s) (length (players s)))"
  "currentWord (startGame WORDS rnd s) =
     js_index WORDS \<lfloor>js_times (rnd (snd (drawIndices rnd (gameMode s) (length (players s)))))
        (real (length WORDS))\<rfloor>"
  "currentPlayerIndex (startGame WORDS rnd s) = 0"
  "gameState (startGame WORDS rnd s) = Playing"
  "isRevealed (startGame WORDS rnd s) = False"
  "isPressed (startGame WORDS rnd s) = False"
  "players (startGame WORDS rnd s) = players s"
  "gameMode (startGame WORDS rnd s) = gameMode s"
  by (simp_all add: startGame_def Let_def split: prod.splits)

subsection \<open>Assignment\<close>

text \<open>
  C1. With at least three players and the mode classic, \<^verbatim>\<open>startGame\<close> stores exactly one
  impostor position, the floor of the double product of the draw and the roster size
  \<open>n\<close>, and that position lies in \<open>[0, n)\<close>.
\<close>

theorem classic_assignment:
  assumes "gameMode s = Classic" and "3 \<le> length (players s)"
    and "\<forall>k. is_double (rnd k) \<and> 0 \<le> rnd k \<and> rnd k < 1"
  shows "\<exists>i. impostorIndices (startGame WORDS rnd s) = [Some i]
           \<and> i = \<lfloor>js_times (rnd 0) (real (length (players s)))\<rfloor>
           \<and> 0 \<le> i \<and> i < int (length (players s))"
proof -
  from assms(2) have n: "0 < length (players s)" by (cases "players s") simp_all
  from assms(3) have "is_double (rnd 0)" "0 \<le> rnd 0" "rnd 0 < 1" by simp_all
  from random_index_range [OF this n] assms(1) show ?thesis
    by (simp add: startGame_fields drawIndices_def)
qed

theorem classic_assignment_witness:
  "impostorIndices (startGame [''SOL''] (\<lambda>k. twoThirds) (initialApp True)) = [Some 2]"
proof -
  have m: "gameMode (initialApp True) = Classic" and n: "3 \<le> length (players (initialApp True))"
    by (simp_all add: initialApp_def defaultPlayers_def)
  have r: "\<forall>k::nat. is_double twoThirds \<and> 0 \<le> twoThirds \<and> twoThirds < 1"
    by (simp add: example_doubles)
  have l: "real (length (players (initialApp True))) = 3"
    by (simp add: initialApp_def defaultPlayers_def)
  from classic_assignment [OF m n, of "\<lambda>k. twoThirds" "[''SOL'']", OF r] show ?thesis
    by (simp add: l example_products)
qed

subsection \<open>The uncertainty draw\<close>

lemma random_nat_index:
  assumes "is_double r" "0 \<le> r" "r < 1" "0 < n"
  shows "nat \<lfloor>js_times r (real n)\<rfloor> < n"
  using random_index_range [OF assms] by linarith

lemma splice1_in_range:
  assumes "0 \<le> j" and "j < int (length xs)"
  shows "splice1 j xs = (Some (xs ! nat j), take (nat j) xs @ drop (Suc (nat j)) xs)"
  using assms by (simp add: splice1_def Let_def min_def)

lemma impostorLoop_draws:
  assumes "\<forall>k. is_double (rnd k) \<and> 0 \<le> rnd k \<and> rnd k < 1" and "0 \<le> i"
    and "numImpostors - i \<le> int (length pool)"
  shows "impostorLoop rnd i numImpostors pool acc =
     acc @ map Some (drawWithoutReplacement (map rnd [nat i + 1 ..< nat numImpostors + 1]) pool)"
  using assms
proof (induction rnd i numImpostors pool acc rule: impostorLoop.induct)
  case (1 rnd i numImpostors allIndices indices)
  show ?case
  proof (cases "i < numImpostors")
    case False
    with "1.prems" have "[nat i + 1 ..< nat numImpostors + 1] = []" by simp
    with False show ?thesis by (simp add: impostorLoop.simps [of rnd i])
  next
    case True
    let ?u = "rnd (nat i + 1)"
    let ?j = "\<lfloor>js_times ?u (real (length allIndices))\<rfloor>"
    let ?rest = "take (nat ?j) allIndices @ drop (Suc (nat ?j)) allIndices"
    from True "1.prems" have "0 < int (length allIndices)" by linarith
    then have len: "0 < length allIndices" by linarith
    from "1.prems"(1) have u: "is_double ?u" "0 \<le> ?u" "?u < 1" by simp_all
    from random_index_range [OF u len] have j: "0 \<le> ?j" "?j < int (length allIndices)"
      by simp_all
    then have jn: "nat ?j < length allIndices" by linarith
    have sp: "splice1 ?j allIndices = (Some (allIndices ! nat ?j), ?rest)"
      by (rule splice1_in_range [OF j])
    have step: "impostorLoop rnd i numImpostors allIndices indices =
        impostorLoop rnd (i + 1) numImpostors ?rest (indices @ [Some (allIndices ! nat ?j)])"
      by (subst impostorLoop.simps) (simp only: True if_True Let_def sp prod.case)
    have lrest: "length ?rest = length allIndices - 1" using jn by simp
    have pre: "0 \<le> i + 1" "numImpostors - (i + 1) \<le> int (length ?rest)"
      using "1.prems" len by (simp_all add: lrest)
    have IH: "impostorLoop rnd (i + 1) numImpostors ?rest (indices @ [Some (allIndices ! nat ?j)]) =
        (indices @ [Some (allIndices ! nat ?j)]) @
        map Some (drawWithoutReplacement (map rnd [nat (i + 1) + 1 ..< nat numImpostors + 1]) ?rest)"
      by (rule "1.IH" [OF True refl sp [symmetric] refl "1.prems"(1) pre])
    have a: "nat i + 1 < nat numImpostors + 1" using True "1.prems" by linarith
    have b: "nat (i + 1) + 1 = Suc (nat i + 1)" using "1.prems" by linarith
    have E: "[nat i + 1 ..< nat numImpostors + 1] =
        (nat i + 1) # [nat (i + 1) + 1 ..< nat numImpostors + 1]"
      unfolding b by (rule upt_conv_Cons [OF a])
    show ?thesis unfolding step IH E by (simp add: Let_def)
  qed
qed

lemma remove_nth_facts:
  assumes "j < length xs"
  shows "set (take j xs @ drop (Suc j) xs) \<subseteq> set xs"
    and "distinct xs \<Longrightarrow> distinct (take j xs @ drop (Suc j) xs)"
    and "distinct xs \<Longrightarrow> xs ! j \<notin> set (take j xs @ drop (Suc j) xs)"
    and "length (take j xs @ drop (Suc j) xs) = length xs - 1"
proof -
  from assms have split: "xs = take j xs @ xs ! j # drop (Suc j) xs"
    by (rule id_take_nth_drop)
  show "set (take j xs @ drop (Suc j) xs) \<subseteq> set xs"
    by (auto dest: in_set_takeD in_set_dropD)
  show "length (take j xs @ drop (Suc j) xs) = length xs - 1" using assms by simp
  {
    assume "distinct xs"
    then have d: "distinct (take j xs @ xs ! j # drop (Suc j) xs)" using split by simp
    from d show "distinct (take j xs @ drop (Suc j) xs)" by auto
    from d show "xs ! j \<notin> set (take j xs @ drop (Suc j) xs)" by auto
  }
qed

lemma drawWithoutReplacement_props:
  assumes "\<forall>u\<in>set us. is_double u \<and> 0 \<le> u \<and> u < 1" and "length us \<le> length pool"
  shows "length (drawWithoutReplacement us pool) = length us
     \<and> set (drawWithoutReplacement us pool) \<subseteq> set pool
     \<and> (distinct pool \<longrightarrow> distinct (drawWithoutReplacement us pool))"
  using assms
proof (induction us arbitrary: pool)
  case Nil
  then show ?case by simp
next
  case (Cons u us)
  let ?j = "nat \<lfloor>js_times u (real (length pool))\<rfloor>"
  let ?rest = "take ?j pool @ drop (Suc ?j) pool"
  from Cons.prems have len: "0 < length pool" by (cases pool) simp_all
  from Cons.prems have u: "is_double u" "0 \<le> u" "u < 1" by simp_all
  from random_nat_index [OF u len] have j: "?j < length pool" .
  note rf = remove_nth_facts [OF j]
  from Cons.prems rf(4) have "\<forall>u\<in>set us. is_double u \<and> 0 \<le> u \<and> u < 1" "length us \<le> length ?rest"
    by simp_all
  from Cons.IH [OF this]
  have IH: "length (drawWithoutReplacement us ?rest) = length us"
    "set (drawWithoutReplacement us ?rest) \<subseteq> set ?rest"
    "distinct ?rest \<longrightarrow> distinct (drawWithoutReplacement us ?rest)"
    by simp_all
  have "length (drawWithoutReplacement (u # us) pool) = length (u # us)"
    using IH(1) by (simp add: Let_def)
  moreover have "set (drawWithoutReplacement (u # us) pool) \<subseteq> set pool"
    using IH(2) rf(1) j by (auto simp: Let_def)
  moreover have "distinct (drawWithoutReplacement (u # us) pool)" if "distinct pool"
    using IH(2,3) rf(2,3) that by (auto simp: Let_def)
  ultimately show ?case by blast
qed

lemma numImpostors_range:
  assumes "is_double r" "0 \<le> r" "r < 1" "2 \<le> n"
  shows "1 \<le> numImpostors_of r n \<and> numImpostors_of r n \<le> int n - 1"
proof -
  from assms(4) have n1: "0 < n - 1" by simp
  from assms(4) have eq: "real n - 1 = real (n - 1)" by (simp add: of_nat_diff)
  have v: "numImpostors_of r n = \<lfloor>js_times r (real (n - 1))\<rfloor> + 1"
    unfolding numImpostors_of_def eq ..
  from assms(4) have i: "int (n - 1) = int n - 1" by linarith
  from random_index_range [OF assms(1-3) n1] show ?thesis
    unfolding v i by linarith
qed

text \<open>
  C2. With \<open>n \<ge> 3\<close> players and the mode uncertainty, \<^verbatim>\<open>startGame\<close> draws a count \<open>k\<close> with
  \<open>1 \<le> k \<le> n - 1\<close> and stores \<open>k\<close> impostor positions, pairwise distinct and each in
  \<open>[0, n)\<close>. They are the elements taken one at a time, \<open>k\<close> times, out of a pool that starts
  as all \<open>n\<close> indices. The count is drawn uniformly from \<open>[1, n - 1]\<close> and each position
  uniformly from the pool, in the sense of \<open>draws_uniformly\<close>: every outcome is drawn on an
  interval of draws of the same width, up to the rounding of the product.
\<close>

theorem uncertainty_assignment:
  assumes "gameMode s = Uncertainty" and "n = length (players s)" and "3 \<le> n"
    and "\<forall>k. is_double (rnd k) \<and> 0 \<le> rnd k \<and> rnd k < 1"
  shows "\<exists>k picks.
       k = nat (numImpostors_of (rnd 0) n)
     \<and> 1 \<le> k \<and> k \<le> n - 1
     \<and> picks = drawWithoutReplacement (map rnd [1 ..< k + 1]) (map int [0 ..< n])
     \<and> impostorIndices (startGame WORDS rnd s) = map Some picks
     \<and> length picks = k
     \<and> distinct picks
     \<and> (\<forall>p\<in>set picks. 0 \<le> p \<and> p < int n)
     \<and> (n - 1 \<le> 2 ^ 53 \<longrightarrow> draws_uniformly (\<lambda>u. numImpostors_of u n) 1 (n - 1))
     \<and> (\<forall>m. 0 < m \<and> m \<le> 2 ^ 53 \<longrightarrow> draws_uniformly (\<lambda>u. \<lfloor>js_times u (real m)\<rfloor>) 0 m)"
proof -
  define c where "c = numImpostors_of (rnd 0) n"
  define k where "k = nat c"
  define picks where "picks = drawWithoutReplacement (map rnd [1 ..< k + 1]) (map int [0 ..< n])"
  from assms(3) have n2: "2 \<le> n" by simp
  from assms(4) have "is_double (rnd 0)" "0 \<le> rnd 0" "rnd 0 < 1" by simp_all
  from numImpostors_range [OF this n2] have c: "1 \<le> c" "c \<le> int n - 1"
    by (simp_all add: c_def)
  then have k: "1 \<le> k" "k \<le> n - 1" "int k = c" by (simp_all add: k_def)
  have "c - 0 \<le> int (length (map int [0 ..< n]))" using c by simp
  from impostorLoop_draws [OF assms(4) order_refl this, of "[]"]
  have loop: "impostorLoop rnd 0 c (map int [0 ..< n]) [] = map Some picks"
    by (simp add: picks_def k_def)
  have ind: "impostorIndices (startGame WORDS rnd s) = map Some picks"
    using assms(1,2) loop by (simp add: startGame_fields drawIndices_def Let_def c_def)
  have us: "\<forall>u\<in>set (map rnd [1 ..< k + 1]). is_double u \<and> 0 \<le> u \<and> u < 1" using assms(4) by simp
  have le: "length (map rnd [1 ..< k + 1]) \<le> length (map int [0 ..< n])" using k by simp
  from drawWithoutReplacement_props [OF us le]
  have p: "length picks = k" "set picks \<subseteq> set (map int [0 ..< n])" "distinct picks"
    by (simp_all add: picks_def distinct_map)
  from p(2) have rng: "\<forall>p\<in>set picks. 0 \<le> p \<and> p < int n" by auto
  have u1: "n - 1 \<le> 2 ^ 53 \<longrightarrow> draws_uniformly (\<lambda>u. numImpostors_of u n) 1 (n - 1)"
    using count_draws_uniformly [OF n2] by blast
  have u2: "\<forall>m. 0 < m \<and> m \<le> 2 ^ 53 \<longrightarrow> draws_uniformly (\<lambda>u. \<lfloor>js_times u (real m)\<rfloor>) 0 m"
    using floor_draws_uniformly by blast
  from k ind p(1,3) rng u1 u2 show ?thesis
    unfolding picks_def k_def c_def by blast
qed

theorem uncertainty_assignment_witness:
  "impostorIndices (startGame [''SOL''] (\<lambda>k. if k = 0 then 1 / 4 else twoThirds)
     ((initialApp True)\<lparr>gameMode := Uncertainty\<rparr>)) = [Some 2]
   \<and> draws_uniformly (\<lambda>u. numImpostors_of u 3) 1 2"
proof -
  let ?s = "(initialApp True)\<lparr>gameMode := Uncertainty\<rparr>"
  let ?rnd = "\<lambda>k::nat. if k = 0 then 1 / 4 else twoThirds"
  have m: "gameMode ?s = Uncertainty" and n: "3 = length (players ?s)" "3 \<le> (3::nat)"
    by (simp_all add: initialApp_def defaultPlayers_def)
  have r: "\<forall>k. is_double (?rnd k) \<and> 0 \<le> ?rnd k \<and> ?rnd k < 1"
    by (simp add: example_doubles)
  have c: "numImpostors_of (1 / 4) 3 = 1"
    by (simp add: numImpostors_of_def example_products)
  from uncertainty_assignment [OF m n r, of "[''SOL'']"] show ?thesis
    by (simp add: c example_products upt_conv_Cons)
qed

text \<open>
  C10. For a word list that is not empty, in either mode, the word \<^verbatim>\<open>startGame\<close> stores is
  the element of the list at the index \<open>\<lfloor>u * length\<rfloor>\<close> for one draw \<open>u\<close> of the random
  source, the product being that of doubles, and that index is in range.
\<close>

theorem word_validity:
  assumes "WORDS \<noteq> []" and "\<forall>k. is_double (rnd k) \<and> 0 \<le> rnd k \<and> rnd k < 1"
  shows "\<exists>k i. i = \<lfloor>js_times (rnd k) (real (length WORDS))\<rfloor> \<and> 0 \<le> i \<and> i < int (length WORDS)
     \<and> currentWord (startGame WORDS rnd s) = Some (WORDS ! nat i)
     \<and> WORDS ! nat i \<in> set WORDS"
proof -
  define k where "k = snd (drawIndices rnd (gameMode s) (length (players s)))"
  let ?i = "\<lfloor>js_times (rnd k) (real (length WORDS))\<rfloor>"
  from assms(1) have n: "0 < length WORDS" by simp
  from assms(2) have "is_double (rnd k)" "0 \<le> rnd k" "rnd k < 1" by simp_all
  from random_index_range [OF this n]
  have r: "0 \<le> ?i" "?i < int (length WORDS)"
    by simp_all
  then have lt: "nat ?i < length WORDS" by linarith
  from r lt have "currentWord (startGame WORDS rnd s) = Some (WORDS ! nat ?i)"
    by (simp add: startGame_fields js_index_def k_def)
  with r lt show ?thesis by (intro exI [of _ k] exI [of _ "?i"]) simp
qed

theorem word_validity_witness:
  "currentWord (startGame [''A'', ''B'', ''C'', ''D'', ''E'', ''F''] (\<lambda>k. fiveSixths) (initialApp True))
     = Some ''F''"
proof -
  have r: "\<forall>k::nat. is_double fiveSixths \<and> 0 \<le> fiveSixths \<and> fiveSixths < 1"
    by (simp add: example_doubles)
  have w: "[''A'', ''B'', ''C'', ''D'', ''E'', ''F''] \<noteq> []" by simp
  have v: "currentWord (startGame [''A'', ''B'', ''C'', ''D'', ''E'', ''F''] (\<lambda>k. fiveSixths) (initialApp True))
     = js_index [''A'', ''B'', ''C'', ''D'', ''E'', ''F''] \<lfloor>js_times fiveSixths 6\<rfloor>"
    by (simp add: startGame_fields)
  from word_validity [OF w, of "\<lambda>k. fiveSixths" "initialApp True", OF r] show ?thesis
    by (simp add: v example_products js_index_def)
qed

subsection \<open>Roster floor\<close>

text \<open>\<^verbatim>\<open>filter\<close> drops every player that has the identifier; when identifiers are unique
  that is at most one.\<close>

lemma filter_drops_one:
  "distinct (map pid ps) \<Longrightarrow> length ps \<le> Suc (length (filter (\<lambda>p. pid p \<noteq> i) ps))"
proof (induction ps)
  case Nil
  then show ?case by simp
next
  case (Cons p ps)
  show ?case
  proof (cases "pid p = i")
    case True
    with Cons.prems have "i \<notin> pid ` set ps" by auto
    then have "filter (\<lambda>p. pid p \<noteq> i) ps = ps" by (auto simp: filter_id_conv)
    with True show ?thesis by simp
  next
    case False
    with Cons show ?thesis by simp
  qed
qed

lemma removePlayer_keeps:
  assumes "distinct (map pid (players s))" and "3 \<le> length (players s)"
  shows "distinct (map pid (players (removePlayer i s))) \<and> 3 \<le> length (players (removePlayer i s))"
  using assms filter_drops_one [OF assms(1), of i]
  by (auto simp: removePlayer_def distinct_map_filter)

text \<open>
  C4, amended. From a roster of at least three players whose identifiers are pairwise
  distinct, whatever sequence of \<^verbatim>\<open>removePlayer\<close> calls is made, at least three players
  remain; a removal whose result would have fewer than three players changes nothing,
  and so does a removal of an identifier that no player has.
\<close>

theorem roster_floor:
  assumes "distinct (map pid (players s))" and "3 \<le> length (players s)"
  shows "3 \<le> length (players (removeAll_players ids s))
     \<and> (length (filter (\<lambda>p. pid p \<noteq> i) (players s)) < 3 \<longrightarrow> removePlayer i s = s)
     \<and> (i \<notin> pid ` set (players s) \<longrightarrow> removePlayer i s = s)"
proof (intro conjI impI)
  from assms show "3 \<le> length (players (removeAll_players ids s))"
  proof (induction ids arbitrary: s)
    case Nil
    then show ?case by simp
  next
    case (Cons j ids)
    from removePlayer_keeps [OF Cons.prems, of j] Cons.IH [of "removePlayer j s"]
    show ?case by simp
  qed
next
  assume "length (filter (\<lambda>p. pid p \<noteq> i) (players s)) < 3"
  with filter_drops_one [OF assms(1), of i] have "length (players s) \<le> 3" by simp
  then show "removePlayer i s = s" by (simp add: removePlayer_def)
next
  assume "i \<notin> pid ` set (players s)"
  then have "filter (\<lambda>p. pid p \<noteq> i) (players s) = players s"
    by (auto simp: filter_id_conv)
  then show "removePlayer i s = s" by (simp add: removePlayer_def)
qed

theorem roster_floor_witness:
  "length (players (removeAll_players [''2'', ''k3x'', ''9'', ''1''] fourPlayers)) = 3
   \<and> removePlayer ''1'' (initialApp True) = initialApp True
   \<and> removePlayer ''zz'' fourPlayers = fourPlayers"
  using roster_floor [of fourPlayers "[''2'', ''k3x'', ''9'', ''1'']" "''zz''"]
    roster_floor [of "initialApp True" "[]" "''1''"]
  by (simp add: fourPlayers_def initialApp_def defaultPlayers_def removePlayer_def)


text \<open>
  C4, as the specification words it: from any roster of at least three players. The
  identifiers of added players are digits of random draws and nothing keeps them apart.
  With the four players \<^verbatim>\<open>1, 2, 3, 1\<close> the removal of \<^verbatim>\<open>'1'\<close> passes the test
  \<^verbatim>\<open>players.length > 3\<close> and leaves two players, although its result has fewer than
  three; with two added players of one identifier, removing a seed player and then that
  identifier leaves two as well.
\<close>

theorem roster_floor_counterexample:
  "length (players repeatedId) = 4
   \<and> length (filter (\<lambda>p. pid p \<noteq> ''1'') (players repeatedId)) = 2
   \<and> length (players (removePlayer ''1'' repeatedId)) = 2
   \<and> removePlayer ''1'' repeatedId \<noteq> repeatedId
   \<and> length (players twoAlike) = 5
   \<and> length (players (removeAll_players [''1'', ''k3x''] twoAlike)) = 2"
proof -
  have a: "length (players repeatedId) = 4"
    and b: "length (filter (\<lambda>p. pid p \<noteq> ''1'') (players repeatedId)) = 2"
    and c: "length (players (removePlayer ''1'' repeatedId)) = 2"
    by (simp_all add: repeatedId_def initialApp_def defaultPlayers_def removePlayer_def)
  from a c have d: "removePlayer ''1'' repeatedId \<noteq> repeatedId" by auto
  have e: "length (players twoAlike) = 5"
    and f: "length (players (removeAll_players [''1'', ''k3x''] twoAlike)) = 2"
    by (simp_all add: twoAlike_def initialApp_def defaultPlayers_def removePlayer_def)
  from a b c d e f show ?thesis by blast
qed

subsection \<open>Shuffle\<close>

lemma dyadic_int: "dyadic (real_of_int k)"
  unfolding dyadic_def by (rule exI [of _ k], rule exI [of _ 0]) simp

lemma dyadic_half: "dyadic (1 / 2)"
  unfolding dyadic_def by (rule exI [of _ 1], rule exI [of _ 1]) simp

lemma dyadic_mult:
  assumes "dyadic x" "dyadic y" shows "dyadic (x * y)"
proof -
  from assms obtain k d k' d' where "x = real_of_int k / 2 ^ d" "y = real_of_int k' / 2 ^ d'"
    unfolding dyadic_def by blast
  then have "x * y = real_of_int (k * k') / 2 ^ (d + d')" by (simp add: power_add)
  then show ?thesis unfolding dyadic_def by blast
qed

lemma dyadic_add:
  assumes "dyadic x" "dyadic y" shows "dyadic (x + y)"
proof -
  from assms obtain k d k' d' where xy: "x = real_of_int k / 2 ^ d" "y = real_of_int k' / 2 ^ d'"
    unfolding dyadic_def by blast
  have "x + y = real_of_int (k * 2 ^ d' + k' * 2 ^ d) / 2 ^ (d + d')"
    unfolding xy by (simp add: power_add field_simps)
  then show ?thesis unfolding dyadic_def by blast
qed

lemma dyadic_minus:
  assumes "dyadic x" shows "dyadic (- x)"
proof -
  from assms obtain k d where "x = real_of_int k / 2 ^ d" unfolding dyadic_def by blast
  then have "- x = real_of_int (- k) / 2 ^ d" by simp
  then show ?thesis unfolding dyadic_def by blast
qed

lemma dyadic_not_inverse_fact:
  assumes "dyadic x" and "3 \<le> n" shows "x \<noteq> 1 / fact n"
proof
  assume "x = 1 / fact n"
  with assms(1) obtain k :: int and d :: nat where "1 / fact n = real_of_int k / 2 ^ d"
    unfolding dyadic_def by auto
  then have "(2::real) ^ d = real_of_int k * fact n" by (simp add: field_simps)
  then have "real_of_int (2 ^ d) = real_of_int (k * fact n)" by simp
  then have eq: "(2::int) ^ d = k * fact n" by (simp only: of_int_eq_iff)
  from assms(2) have "(3::nat) dvd fact n" by (intro dvd_fact) simp_all
  then have "int 3 dvd int (fact n)" by (simp only: int_dvd_int_iff)
  then have "(3::int) dvd fact n" by simp
  then have "(3::int) dvd 2 ^ d" unfolding eq by (rule dvd_mult)
  moreover have "coprime (3::int) (2 ^ d)" by (rule coprime_power_right_iff [THEN iffD2]) simp
  ultimately have "is_unit (3::int)" by (rule coprime_common_divisor [of 3 "2 ^ d" 3, rotated 2]) simp
  then show False by simp
qed

lemma likelihood_dyadic:
  assumes "dyadic z" shows "dyadic (likelihood z t p)"
proof (induction t)
  case (Done q)
  from dyadic_int [of 1] dyadic_int [of 0] show ?case by simp
next
  case (Compare i j l e g)
  have "dyadic (1 / 2 - z)" using dyadic_add [OF dyadic_half dyadic_minus [OF assms]] by simp
  with Compare assms dyadic_half show ?case
    by (simp del: times_divide_eq_left add: dyadic_add dyadic_mult)
qed


text \<open>The likelihood of an ordering is the share of the sign patterns that lead to it.\<close>

text \<open>The likelihood of an ordering is the share of the sign patterns that lead to it.\<close>

lemma sortRun_shift: "sortRun t rnd (Suc k) = sortRun t (\<lambda>i. rnd (Suc i)) k"
  by (induction t arbitrary: k) (simp_all add: Let_def)

lemma signSource_Cons: "(\<lambda>i. signSource (b # bs) (Suc i)) = signSource bs"
  by (rule ext) (simp add: signSource_def)

lemma sortRun_sign_step:
  "sortRun (Compare i j l e g) (signSource (b # bs)) 0 = sortRun (if b then l else g) (signSource bs) 0"
proof -
  have "sortRun t (signSource (b # bs)) (Suc 0) = sortRun t (signSource bs) 0" for t
    by (simp only: sortRun_shift signSource_Cons)
  then show ?thesis by (simp add: Let_def signSource_def)
qed

lemma lists_Suc_split:
  "{bs::bool list. length bs = Suc d \<and> P bs} =
     (Cons True) ` {bs. length bs = d \<and> P (True # bs)} \<union> (Cons False) ` {bs. length bs = d \<and> P (False # bs)}"
proof (intro set_eqI iffI)
  fix bs assume "bs \<in> {bs. length bs = Suc d \<and> P bs}"
  then obtain b bs' where "bs = b # bs'" "length bs' = d" "P (b # bs')"
    by (cases bs) auto
  then show "bs \<in> (Cons True) ` {bs. length bs = d \<and> P (True # bs)} \<union> (Cons False) ` {bs. length bs = d \<and> P (False # bs)}"
    by (cases b) auto
next
  fix bs assume "bs \<in> (Cons True) ` {bs. length bs = d \<and> P (True # bs)} \<union> (Cons False) ` {bs. length bs = d \<and> P (False # bs)}"
  then show "bs \<in> {bs. length bs = Suc d \<and> P bs}" by auto
qed

lemma finite_bool_lists: "finite {bs::bool list. length bs = d \<and> P bs}"
proof -
  have "{bs::bool list. length bs = d \<and> P bs} \<subseteq> {bs. set bs \<subseteq> UNIV \<and> length bs = d}" by auto
  moreover have "finite {bs::bool list. set bs \<subseteq> UNIV \<and> length bs = d}"
    by (rule finite_lists_length_eq) simp
  ultimately show ?thesis by (rule finite_subset)
qed

lemma card_lists_Suc_split:
  "card {bs::bool list. length bs = Suc d \<and> P bs} =
     card {bs. length bs = d \<and> P (True # bs)} + card {bs. length bs = d \<and> P (False # bs)}"
proof -
  let ?A = "{bs. length bs = d \<and> P (True # bs)}" and ?B = "{bs. length bs = d \<and> P (False # bs)}"
  have "card ((Cons True) ` ?A \<union> (Cons False) ` ?B) = card ((Cons True) ` ?A) + card ((Cons False) ` ?B)"
    by (rule card_Un_disjoint) (auto simp: finite_bool_lists)
  moreover have "card ((Cons True) ` ?A) = card ?A" by (rule card_image) (simp add: inj_on_def)
  moreover have "card ((Cons False) ` ?B) = card ?B" by (rule card_image) (simp add: inj_on_def)
  ultimately show ?thesis by (simp only: lists_Suc_split)
qed

lemma card_bool_lists: "card {bs::bool list. length bs = d} = 2 ^ d"
  using card_lists_length_eq [of "UNIV :: bool set" d] by simp

lemma likelihood_counts:
  assumes "height_s t \<le> d"
  shows "real (card {bs::bool list. length bs = d \<and> sortRun t (signSource bs) 0 = p}) =
         likelihood 0 t p * 2 ^ d"
  using assms
proof (induction t arbitrary: d)
  case (Done q)
  show ?case by (cases "q = p") (simp_all add: card_bool_lists)
next
  case (Compare i j l e g)
  then obtain d' where d: "d = Suc d'" by (cases d) simp_all
  with Compare.prems have h: "height_s l \<le> d'" "height_s g \<le> d'" by simp_all
  have "card {bs::bool list. length bs = Suc d' \<and> sortRun (Compare i j l e g) (signSource bs) 0 = p} =
        card {bs::bool list. length bs = d' \<and> sortRun l (signSource bs) 0 = p}
      + card {bs::bool list. length bs = d' \<and> sortRun g (signSource bs) 0 = p}"
    by (simp only: card_lists_Suc_split sortRun_sign_step if_True if_False)
  with Compare.IH(1) [OF h(1)] Compare.IH(3) [OF h(2)] show ?case
    by (simp add: d field_simps)
qed

lemma dyadic_zero: "dyadic 0"
  using dyadic_int [of 0] by simp

lemma dyadic_bit: "dyadic (1 / 2 ^ b)"
  unfolding dyadic_def by (rule exI [of _ 1], rule exI [of _ b]) simp

text \<open>The six outcomes of the sort of V8 on three elements; only one of them leaves the
  seed roster as it is.\<close>

lemma v8_sort3_leaves:
  "sortRun v8_sort3 rnd 0 \<in>
     {[0, 1, 2], [0, 2, 1], [1, 0, 2], [1, 2, 0], [2, 0, 1], [2, 1, 0]}"
  by (simp add: v8_sort3_def Let_def)

lemma seed_order_kept:
  assumes "p \<in> {[0, 1, 2], [0, 2, 1], [1, 0, 2], [1, 2, 0], [2, 0, 1], [2, 1, 0]}"
  shows "map (\<lambda>i. defaultPlayers ! i) p = defaultPlayers \<longleftrightarrow> p = [0, 1, 2]"
  using assms by (elim insertE emptyE; simp add: defaultPlayers_def)

text \<open>
  C6. The specification asks for a uniform shuffle: each of the \<open>n!\<close> orderings equally
  likely, \<open>1/6\<close> for the three seed players. \<^verbatim>\<open>shufflePlayers\<close> does not deliver it. On V8
  the draws \<^verbatim>\<open>0.75, 0.25, 0.25, 0.25\<close> store the players \<^verbatim>\<open>3, 1, 2\<close>; of the 16 sign
  patterns of four comparator results, 6 leave the seed roster in its order, a likelihood
  of \<open>3/8\<close>. On any engine the likelihood of an ordering is a sum of powers of \<open>1/2\<close>, and so
  never \<open>1/6\<close>, for a uniform real source and for a source of 53 random bits.
\<close>

theorem shufflePlayers_biased:
  "map pid (players (shufflePlayers v8_sort3 (\<lambda>k. if k = 0 then 3 / 4 else 1 / 4) (initialApp v)))
     = [''3'', ''1'', ''2'']
   \<and> card {bs. length bs = 4
          \<and> players (shufflePlayers v8_sort3 (signSource bs) (initialApp v)) = players (initialApp v)}
     = 6
   \<and> likelihood 0 v8_sort3 [0, 1, 2] = 3 / 8
   \<and> 1 / fact (length (players (initialApp v))) = (1 / 6 :: real)
   \<and> (\<forall>t p. likelihood 0 t p \<noteq> 1 / fact (length (players (initialApp v))))
   \<and> (\<forall>t p. likelihood (1 / 2 ^ 53) t p \<noteq> 1 / fact (length (players (initialApp v))))"
proof -
  have n: "length (players (initialApp v)) = 3"
    by (simp add: initialApp_def defaultPlayers_def)
  have f: "fact 3 = (6::real)" by (simp add: fact_numeral)
  have a: "map pid (players (shufflePlayers v8_sort3 (\<lambda>k. if k = 0 then 3 / 4 else 1 / 4) (initialApp v)))
     = [''3'', ''1'', ''2'']"
    by (simp add: shufflePlayers_def v8_sort3_def initialApp_def defaultPlayers_def Let_def)
  have l: "likelihood 0 v8_sort3 [0, 1, 2] = 3 / 8"
    by (simp add: v8_sort3_def Let_def)
  have h: "height_s v8_sort3 \<le> 4" by (simp add: v8_sort3_def Let_def)
  have same: "players (shufflePlayers v8_sort3 rnd (initialApp v)) = players (initialApp v)
      \<longleftrightarrow> sortRun v8_sort3 rnd 0 = [0, 1, 2]" for rnd
    using seed_order_kept [OF v8_sort3_leaves [of rnd]]
    by (simp add: shufflePlayers_def initialApp_def Let_def)
  have "real (card {bs. length bs = 4
          \<and> players (shufflePlayers v8_sort3 (signSource bs) (initialApp v)) = players (initialApp v)})
      = likelihood 0 v8_sort3 [0, 1, 2] * 2 ^ 4"
    unfolding same by (rule likelihood_counts [OF h])
  then have "real (card {bs. length bs = 4
          \<and> players (shufflePlayers v8_sort3 (signSource bs) (initialApp v)) = players (initialApp v)})
      = real 6" unfolding l by simp
  then have c: "card {bs. length bs = 4
          \<and> players (shufflePlayers v8_sort3 (signSource bs) (initialApp v)) = players (initialApp v)}
      = 6" by (simp only: of_nat_eq_iff)
  have b: "likelihood 0 t p \<noteq> 1 / fact 3" for t p
    by (rule dyadic_not_inverse_fact [OF likelihood_dyadic [OF dyadic_zero]]) simp
  have d: "likelihood (1 / 2 ^ 53) t p \<noteq> 1 / fact 3" for t p
    by (rule dyadic_not_inverse_fact [OF likelihood_dyadic [OF dyadic_bit]]) simp
  from a c l b d show ?thesis unfolding n by (simp add: f)
qed

subsection \<open>Turns\<close>

lemma nextPlayer_intermediate:
  assumes "currentPlayerIndex t < int (length (players t)) - 1"
  shows "nextPlayer t = t\<lparr>currentPlayerIndex := currentPlayerIndex t + 1,
                           isRevealed := False, isPressed := False\<rparr>"
  using assms by (simp add: nextPlayer_def)

lemma nextPlayer_last:
  assumes "\<not> currentPlayerIndex t < int (length (players t)) - 1"
  shows "nextPlayer t = t\<lparr>gameState := Finished, effects := effects t @ [Confetti]\<rparr>"
  using assms by (simp add: nextPlayer_def)

lemma advance_prefix:
  assumes "currentPlayerIndex t = 0" and "k < length (players t)"
  shows "players ((nextPlayer ^^ k) t) = players t
     \<and> currentPlayerIndex ((nextPlayer ^^ k) t) = int k
     \<and> gameState ((nextPlayer ^^ k) t) = gameState t
     \<and> effects ((nextPlayer ^^ k) t) = effects t
     \<and> (0 < k \<longrightarrow> \<not> isRevealed ((nextPlayer ^^ k) t) \<and> \<not> isPressed ((nextPlayer ^^ k) t))"
  using assms(2)
proof (induction k)
  case 0
  with assms(1) show ?case by simp
next
  case (Suc k)
  then have IH: "players ((nextPlayer ^^ k) t) = players t"
    "currentPlayerIndex ((nextPlayer ^^ k) t) = int k"
    "gameState ((nextPlayer ^^ k) t) = gameState t"
    "effects ((nextPlayer ^^ k) t) = effects t"
    by simp_all
  from IH Suc.prems
  have "currentPlayerIndex ((nextPlayer ^^ k) t) < int (length (players ((nextPlayer ^^ k) t))) - 1"
    by simp
  from nextPlayer_intermediate [OF this] IH show ?case by simp
qed

text \<open>
  C3. After \<^verbatim>\<open>startGame\<close> with \<open>n\<close> players, \<open>k < n\<close> calls of \<^verbatim>\<open>nextPlayer\<close> leave the phase
  playing, the current index \<open>k\<close>, both flags false and no confetti fired; so after
  \<open>n - 1\<close> calls the index is \<open>n - 1\<close>. The \<open>n\<close>-th call moves the phase to finished and
  fires the confetti, once. Any call made before the last position adds one to the index
  and sets both flags to false, whatever they were.
\<close>

theorem turn_traversal:
  assumes "n = length (players s)" and "1 \<le> n"
  shows "(\<forall>k<n. gameState ((nextPlayer ^^ k) (startGame WORDS rnd s)) = Playing
            \<and> currentPlayerIndex ((nextPlayer ^^ k) (startGame WORDS rnd s)) = int k
            \<and> \<not> isRevealed ((nextPlayer ^^ k) (startGame WORDS rnd s))
            \<and> \<not> isPressed ((nextPlayer ^^ k) (startGame WORDS rnd s))
            \<and> effects ((nextPlayer ^^ k) (startGame WORDS rnd s)) = effects (startGame WORDS rnd s))
     \<and> gameState ((nextPlayer ^^ n) (startGame WORDS rnd s)) = Finished
     \<and> currentPlayerIndex ((nextPlayer ^^ n) (startGame WORDS rnd s)) = int n - 1
     \<and> effects ((nextPlayer ^^ n) (startGame WORDS rnd s)) = effects (startGame WORDS rnd s) @ [Confetti]
     \<and> (\<forall>t. currentPlayerIndex t < int (length (players t)) - 1 \<longrightarrow>
           currentPlayerIndex (nextPlayer t) = currentPlayerIndex t + 1
           \<and> \<not> isRevealed (nextPlayer t) \<and> \<not> isPressed (nextPlayer t)
           \<and> gameState (nextPlayer t) = gameState t \<and> effects (nextPlayer t) = effects t)"
proof -
  define s0 where "s0 = startGame WORDS rnd s"
  have s0: "currentPlayerIndex s0 = 0" "players s0 = players s" "gameState s0 = Playing"
    "\<not> isRevealed s0" "\<not> isPressed s0"
    by (simp_all add: s0_def startGame_fields)
  have pre: "gameState ((nextPlayer ^^ k) s0) = Playing
            \<and> currentPlayerIndex ((nextPlayer ^^ k) s0) = int k
            \<and> \<not> isRevealed ((nextPlayer ^^ k) s0)
            \<and> \<not> isPressed ((nextPlayer ^^ k) s0)
            \<and> effects ((nextPlayer ^^ k) s0) = effects s0
            \<and> players ((nextPlayer ^^ k) s0) = players s0" if "k < n" for k
  proof -
    from that assms(1) s0(2) have "k < length (players s0)" by simp
    from advance_prefix [OF s0(1) this] s0 show ?thesis by (cases k) simp_all
  qed
  from assms(2) have last: "n - 1 < n" by simp
  from assms(2) have n: "n = Suc (n - 1)" by simp
  let ?u = "(nextPlayer ^^ (n - 1)) s0"
  from pre [OF last] assms have "\<not> currentPlayerIndex ?u < int (length (players ?u)) - 1"
    by (simp add: s0(2))
  from nextPlayer_last [OF this] have "nextPlayer ?u = ?u\<lparr>gameState := Finished, effects := effects ?u @ [Confetti]\<rparr>" .
  moreover have "(nextPlayer ^^ n) s0 = nextPlayer ?u" by (subst n) simp
  ultimately have fin: "(nextPlayer ^^ n) s0 = ?u\<lparr>gameState := Finished, effects := effects ?u @ [Confetti]\<rparr>"
    by simp
  have "gameState ((nextPlayer ^^ n) s0) = Finished" by (simp add: fin)
  moreover have "currentPlayerIndex ((nextPlayer ^^ n) s0) = int n - 1"
    using pre [OF last] assms(2) by (simp add: fin of_nat_diff)
  moreover have "effects ((nextPlayer ^^ n) s0) = effects s0 @ [Confetti]"
    using pre [OF last] by (simp add: fin)
  moreover have "\<forall>t. currentPlayerIndex t < int (length (players t)) - 1 \<longrightarrow>
           currentPlayerIndex (nextPlayer t) = currentPlayerIndex t + 1
           \<and> \<not> isRevealed (nextPlayer t) \<and> \<not> isPressed (nextPlayer t)
           \<and> gameState (nextPlayer t) = gameState t \<and> effects (nextPlayer t) = effects t"
    by (simp add: nextPlayer_def)
  ultimately show ?thesis using pre unfolding s0_def by blast
qed

theorem turn_traversal_witness:
  "gameState (nextPlayer (nextPlayer (startGame [''SOL''] (\<lambda>k. 1 / 2) (initialApp False)))) = Playing
   \<and> currentPlayerIndex (nextPlayer (nextPlayer (startGame [''SOL''] (\<lambda>k. 1 / 2) (initialApp False)))) = 2
   \<and> effects (nextPlayer (nextPlayer (startGame [''SOL''] (\<lambda>k. 1 / 2) (initialApp False)))) = []
   \<and> gameState (nextPlayer (nextPlayer (nextPlayer (startGame [''SOL''] (\<lambda>k. 1 / 2) (initialApp False))))) = Finished
   \<and> effects (nextPlayer (nextPlayer (nextPlayer (startGame [''SOL''] (\<lambda>k. 1 / 2) (initialApp False))))) = [Confetti]"
proof -
  have n: "3 = length (players (initialApp False))" "1 \<le> (3::nat)"
    by (simp_all add: initialApp_def defaultPlayers_def)
  have e: "effects (startGame [''SOL''] (\<lambda>k. 1 / 2) (initialApp False)) = []"
    by (simp add: startGame_def initialApp_def vibrate_def Let_def split: prod.splits)
  have two: "(2::nat) < 3" by simp
  from turn_traversal [OF n, of "[''SOL'']" "\<lambda>k. 1 / 2"] two e show ?thesis
    by (auto simp: numeral_2_eq_2 numeral_3_eq_3)
qed

subsection \<open>Gestures and rounds\<close>

text \<open>
  C5. Whatever \<open>isRevealed\<close> was, after \<^verbatim>\<open>handleDragEnd\<close> it is true exactly when
  \<open>offset.y < -50\<close> or \<open>velocity.y < -500\<close>; otherwise it is false exactly when
  \<open>offset.y > 30\<close> or \<open>velocity.y > 500\<close>; otherwise, and so at the boundary values
  \<open>-50\<close>, \<open>30\<close>, \<open>-500\<close> and \<open>500\<close>, it keeps its value.
\<close>

theorem handleDragEnd_revealed:
  "isRevealed (handleDragEnd oy vy s) =
     (if oy < - 50 \<or> vy < - 500 then True
      else if oy > 30 \<or> vy > 500 then False
      else isRevealed s)
   \<and> isRevealed (handleDragEnd (- 50) (- 500) s) = isRevealed s
   \<and> isRevealed (handleDragEnd 30 500 s) = isRevealed s
   \<and> isRevealed (handleDragEnd (- 50) 500 s) = isRevealed s
   \<and> isRevealed (handleDragEnd 30 (- 500) s) = isRevealed s"
  by (simp add: handleDragEnd_def)

text \<open>
  C7. The round counter is 1 in the initial state; \<^verbatim>\<open>startGame\<close> called in the finished
  phase adds exactly one to it, called in the setup phase it leaves it as it is (so it is
  1 after the first start), and \<^verbatim>\<open>resetGame\<close> does not change it.
\<close>

theorem round_counting:
  "roundNo (initialApp v) = 1
   \<and> (gameState s = Finished \<longrightarrow> roundNo (startGame WORDS rnd s) = roundNo s + 1)
   \<and> (gameState s = Setup \<longrightarrow> roundNo (startGame WORDS rnd s) = roundNo s)
   \<and> roundNo (startGame WORDS rnd (initialApp v)) = 1
   \<and> roundNo (resetGame s) = roundNo s"
  by (simp add: initialApp_def startGame_def resetGame_def Let_def split: prod.splits)

theorem round_counting_witness:
  "roundNo (startGame [''SOL''] (\<lambda>k. 1 / 2) ((initialApp True)\<lparr>gameState := Finished\<rparr>)) = 2
   \<and> roundNo (startGame [''SOL''] (\<lambda>k. 1 / 2) ((initialApp True)\<lparr>gameState := Setup\<rparr>)) = 1"
  using round_counting [of True "(initialApp True)\<lparr>gameState := Finished\<rparr>" "[''SOL'']" "\<lambda>k. 1 / 2"]
        round_counting [of True "(initialApp True)\<lparr>gameState := Setup\<rparr>" "[''SOL'']" "\<lambda>k. 1 / 2"]
  by (simp add: initialApp_def)

subsection \<open>Outside the playing phase\<close>




subsection \<open>Reset\<close>

text \<open>
  C9, as the specification words it: \<^verbatim>\<open>resetGame\<close> sets both flags to false. It does not:
  a player who is holding the card button while the last turn is passed on leaves
  \<open>isPressed\<close> true in the finished phase, and it is still true after \<^verbatim>\<open>resetGame\<close>.
\<close>

theorem resetGame_clears_flags_counterexample:
  "gameState (nextPlayer (pointerDown (nextPlayer (nextPlayer
      (startGame [''SOL''] (\<lambda>k. 1 / 2) (initialApp True)))))) = Finished
   \<and> isPressed (resetGame (nextPlayer (pointerDown (nextPlayer (nextPlayer
      (startGame [''SOL''] (\<lambda>k. 1 / 2) (initialApp True))))))) = True
   \<and> isRevealed (resetGame (handleDragEnd (- 60) 0
      (startGame [''SOL''] (\<lambda>k. 1 / 2) (initialApp True)))) = True"
  by (simp add: resetGame_def nextPlayer_def pointerDown_def startGame_fields handleDragEnd_def
      initialApp_def defaultPlayers_def)

text \<open>
  C9, amended. From every state \<^verbatim>\<open>resetGame\<close> moves the phase to setup and replaces the
  roster by the three seed players; it leaves \<open>isRevealed\<close> and \<open>isPressed\<close> as they are, and
  the next \<^verbatim>\<open>startGame\<close> sets both to false.
\<close>

theorem resetGame_effect:
  "gameState (resetGame s) = Setup
   \<and> players (resetGame s) = defaultPlayers
   \<and> map pid (players (resetGame s)) = [''1'', ''2'', ''3'']
   \<and> map name (players (resetGame s)) = [''Jugador 1'', ''Jugador 2'', ''Jugador 3'']
   \<and> isRevealed (resetGame s) = isRevealed s
   \<and> isPressed (resetGame s) = isPressed s
   \<and> isRevealed (startGame WORDS rnd (resetGame s)) = False
   \<and> isPressed (startGame WORDS rnd (resetGame s)) = False"
  by (simp add: resetGame_def defaultPlayers_def startGame_fields)




end
